theory Spec2Isabelle
  imports Complex_Main
begin

section \<open>ChromaSense: the colour generator and the game session of App.tsx\<close>

text \<open>
  The engine of \<^verbatim>\<open>src/App.tsx\<close> is embedded function by function. JavaScript
  numbers are IEEE doubles; every number the engine computes is an integer or a
  multiple of a quarter far below \<open>2 ^ 53\<close>, on which double arithmetic is exact, so
  numbers are modelled as rationals (\<open>rat\<close>), and the counters \<open>score\<close>,
  \<open>timeLeft\<close>, \<open>diffIndex\<close> and \<open>gridSize\<close>, which only ever hold integers, as
  \<open>int\<close>.
\<close>

subsection \<open>Data model\<close>

datatype GameState = START | PLAYING | GAMEOVER

text \<open>
  The interface \<^verbatim>\<open>Color { h, s, l }\<close>. The fields are named \<open>hue\<close>, \<open>sat\<close> and
  \<open>light\<close> here: a record field is a constant, and a constant called \<open>h\<close>, \<open>s\<close> or
  \<open>l\<close> would capture every variable of that name.
\<close>

record Color =
  hue :: rat
  sat :: rat
  light :: rat

record LevelData =
  baseColor :: Color
  diffColor :: Color
  diffIndex :: int
  gridSize :: int

text \<open>The object stored by \<^verbatim>\<open>setLastDiff\<close>: \<^verbatim>\<open>{ base, diff, delta }\<close>.\<close>

record LastDiff =
  base :: string
  diff :: string
  delta :: rat

subsection \<open>The random source and the numeric built-ins\<close>

text \<open>
  \<^verbatim>\<open>Math.random()\<close> is a stream of draws, consumed in call order. A draw of the
  real source lies in \<open>[0, 1)\<close>; \<open>valid_rng\<close> says so.
\<close>

type_synonym rng = "nat \<Rightarrow> rat"

definition Math_random :: "rng \<Rightarrow> rat \<times> rng" where
  "Math_random g = (g 0, \<lambda>n. g (Suc n))"

definition valid_rng :: "rng \<Rightarrow> bool" where
  "valid_rng g \<longleftrightarrow> (\<forall>n. 0 \<le> g n \<and> g n < 1)"

definition Math_floor :: "rat \<Rightarrow> rat" where
  "Math_floor x = of_int \<lfloor>x\<rfloor>"

text \<open>
  The remainder operator \<^verbatim>\<open>%\<close> of JavaScript on numbers: the quotient is truncated
  towards zero, so the result has the sign of the dividend. The divisor is the literal
  360 at its only use.
\<close>

definition js_rem :: "rat \<Rightarrow> rat \<Rightarrow> rat" where
  "js_rem a b = a - b * of_int (if 0 \<le> a / b then \<lfloor>a / b\<rfloor> else \<lceil>a / b\<rceil>)"

text \<open>
  \<^verbatim>\<open>Number(x.toFixed(2))\<close>: \<^verbatim>\<open>toFixed\<close> picks the integer \<open>n\<close> with \<open>n / 100\<close>
  nearest to the magnitude of \<open>x\<close>, the larger one on a tie, and keeps the sign;
  \<^verbatim>\<open>Number\<close> reads the decimal back.
\<close>

definition toFixed2 :: "rat \<Rightarrow> rat" where
  "toFixed2 x =
     (if x < 0 then - (of_int \<lfloor>(- x) * 100 + 1 / 2\<rfloor> / 100)
      else of_int \<lfloor>x * 100 + 1 / 2\<rfloor> / 100)"

text \<open>
  Number to string inside a template literal. Decimal digits of the integer part,
  then the hundredths with a trailing zero dropped. This is what JavaScript prints
  whenever \<open>100 * x\<close> is an integer, which covers every channel value the generator
  produces from an integer difficulty (multiples of a quarter).
\<close>

definition digit :: "nat \<Rightarrow> char" where
  "digit n = ''0123456789'' ! (n mod 10)"

fun dec_digits :: "nat \<Rightarrow> string" where
  "dec_digits n = (if n < 10 then [digit n] else dec_digits (n div 10) @ [digit n])"

declare dec_digits.simps [simp del]

definition num_str :: "rat \<Rightarrow> string" where
  "num_str x =
     (let m = \<bar>x\<bar>;
          n = nat \<lfloor>m\<rfloor>;
          c = nat \<lfloor>(m - of_int \<lfloor>m\<rfloor>) * 100\<rfloor>
      in (if x < 0 then ''-'' else '''') @ dec_digits n @
         (if c = 0 then ''''
          else if c mod 10 = 0 then ''.'' @ [digit (c div 10)]
          else ''.'' @ [digit (c div 10), digit c]))"

subsection \<open>generateColor\<close>

text \<open>
  The constant \<^verbatim>\<open>delta\<close> of \<^verbatim>\<open>generateColor\<close>:
  \<^verbatim>\<open>Math.max(1.5, 15 - (difficulty * 0.25))\<close>.
\<close>

definition colorDelta :: "rat \<Rightarrow> rat" where
  "colorDelta difficulty = max (3 / 2) (15 - difficulty * (1 / 4))"

text \<open>
  \<^verbatim>\<open>generateColor(difficulty)\<close>, threading the random source. The draws are, in
  order: hue, saturation, lightness, \<^verbatim>\<open>type\<close>, the sign (only on the saturation and
  lightness branches) and the cell index. JavaScript rounds a product such as
  \<^verbatim>\<open>Math.random() * 360\<close> to a double before \<^verbatim>\<open>Math.floor\<close>; the model floors the
  exact product. Either way the result is an integer of the same range, and the
  theorems below use nothing else about it.
\<close>

definition generateColor :: "rat \<Rightarrow> rng \<Rightarrow> LevelData \<times> rng" where
  "generateColor difficulty g0 =
     (let (r1, g1) = Math_random g0;
          h = Math_floor (r1 * 360);
          (r2, g2) = Math_random g1;
          s = Math_floor (r2 * 40) + 40;
          (r3, g3) = Math_random g2;
          l = Math_floor (r3 * 40) + 30;
          d = colorDelta difficulty;
          (ty, g4) = Math_random g3;
          (dh, ds, dl, g5) =
            (if ty < 33 / 100 then (js_rem (h + d) 360, s, l, g4)
             else if ty < 66 / 100 then
               (let (r, g') = Math_random g4
                in (h, min 100 (max 0 (s + (if r > 1 / 2 then d else - d))), l, g'))
             else
               (let (r, g') = Math_random g4
                in (h, s, min 100 (max 0 (l + (if r > 1 / 2 then d else - d))), g')));
          gs = 5;
          (r6, g6) = Math_random g5;
          di = \<lfloor>r6 * of_int (gs * gs)\<rfloor>
      in (\<lparr>baseColor = \<lparr>hue = h, sat = s, light = l\<rparr>,
           diffColor = \<lparr>hue = dh, sat = ds, light = dl\<rparr>,
           diffIndex = di, gridSize = gs\<rparr>, g6))"

text \<open>
  The branch taken on the draw \<^verbatim>\<open>type\<close>, with the thresholds of the source:
  \<^verbatim>\<open>type < 0.33\<close>, \<^verbatim>\<open>type < 0.66\<close>, otherwise.
\<close>

datatype Channel = Hue | Saturation | Lightness

definition channelOf :: "rat \<Rightarrow> Channel" where
  "channelOf ty =
     (if ty < 33 / 100 then Hue else if ty < 66 / 100 then Saturation else Lightness)"

text \<open>
  A uniform draw on the grid of \<open>N\<close> equally likely values \<open>k / N\<close>, \<open>k < N\<close>:
  \<open>typeCount N c\<close> counts the draws that select channel \<open>c\<close>, so the channel has
  probability \<open>typeCount N c / N\<close>.
\<close>

definition typeCount :: "nat \<Rightarrow> Channel \<Rightarrow> nat" where
  "typeCount N c = length (filter (\<lambda>k. channelOf (of_nat k / of_nat N) = c) [0..<N])"

subsection \<open>The session\<close>

text \<open>
  \<^verbatim>\<open>handleBlockClick\<close> is a closure made anew by every render of \<^verbatim>\<open>App\<close>. What it
  reads of the state, \<^verbatim>\<open>gameState\<close>, \<^verbatim>\<open>score\<close> and \<^verbatim>\<open>levelData\<close>, are constants
  of the render that made it, not the cells as they are when the click arrives.
\<close>

record Render =
  r_gameState :: GameState
  r_score :: int
  r_levelData :: "LevelData option"

text \<open>
  The state of the component \<^verbatim>\<open>App\<close>: the five \<^verbatim>\<open>useState\<close> cells, whether the
  interval held in \<^verbatim>\<open>timerRef\<close> is running, how many times \<^verbatim>\<open>confetti\<close> has been
  called, and the grid of cells on screen, if there is one, with the render whose
  click handlers its cells carry.
\<close>

record Session =
  gameState :: GameState
  score :: int
  timeLeft :: int
  levelData :: "LevelData option"
  lastDiff :: "LastDiff option"
  timerArmed :: bool
  confettiCount :: nat
  grid :: "Render option"

definition initialSession :: Session where
  "initialSession =
     \<lparr>gameState = START, score = 0, timeLeft = 60, levelData = None, lastDiff = None,
      timerArmed = False, confettiCount = 0, grid = None\<rparr>"

definition render :: "Session \<Rightarrow> Render" where
  "render st =
     \<lparr>r_gameState = gameState st, r_score = score st, r_levelData = levelData st\<rparr>"

text \<open>
  The render that follows every change of state. The grid is drawn, with fresh
  handlers, exactly when \<^verbatim>\<open>gameState === 'PLAYING' && levelData\<close>. When it is not
  drawn, \<^verbatim>\<open>AnimatePresence\<close> keeps the grid of the last render that drew it on
  screen, handlers included, until its exit animation is over (\<open>gridExited\<close>).
\<close>

definition commit :: "Session \<Rightarrow> Session" where
  "commit st =
     (if gameState st = PLAYING \<and> levelData st \<noteq> None then st\<lparr>grid := Some (render st)\<rparr>
      else st)"

definition gridExited :: "Session \<Rightarrow> Session" where
  "gridExited st =
     (if gameState st = PLAYING \<and> levelData st \<noteq> None then st else st\<lparr>grid := None\<rparr>)"

text \<open>
  The effect hook with dependency \<^verbatim>\<open>[gameState]\<close>: it runs after a render in which
  \<^verbatim>\<open>gameState\<close> changed. Its cleanup clears the old interval; a new one is started
  exactly when the new state is \<^verbatim>\<open>PLAYING\<close>.
\<close>

definition timerEffect :: "GameState \<Rightarrow> Session \<Rightarrow> Session" where
  "timerEffect old st =
     (if gameState st \<noteq> old then st\<lparr>timerArmed := (gameState st = PLAYING)\<rparr> else st)"

definition colorToCss :: "Color \<Rightarrow> string" where
  "colorToCss c =
     ''hsl('' @ num_str (hue c) @ '', '' @ num_str (sat c) @ ''%, '' @ num_str (light c) @ ''%)''"

definition startGame :: "Session \<Rightarrow> rng \<Rightarrow> Session \<times> rng" where
  "startGame st g =
     (let (ld, g') = generateColor 0 g
      in (timerEffect (gameState st)
            (st\<lparr>score := 0, timeLeft := 60, gameState := PLAYING,
                levelData := Some ld, lastDiff := None\<rparr>), g'))"

text \<open>
  \<^verbatim>\<open>handleBlockClick(index)\<close> as made by the render \<open>rd\<close>, run on the session \<open>st\<close>.
  The guard, \<^verbatim>\<open>levelData\<close> and \<^verbatim>\<open>score\<close> are those of \<open>rd\<close>; the setters write
  to \<open>st\<close>, and the two \<^verbatim>\<open>setTimeLeft(prev => ...)\<close> read the \<open>timeLeft\<close> of \<open>st\<close>.
\<close>

definition handleBlockClick :: "int \<Rightarrow> Render \<Rightarrow> Session \<Rightarrow> rng \<Rightarrow> Session \<times> rng" where
  "handleBlockClick index rd st g =
     (if r_gameState rd \<noteq> PLAYING then (st, g)
      else case r_levelData rd of
        None \<Rightarrow> (st, g)
      | Some ld \<Rightarrow>
          if index = diffIndex ld then
            (let nextScore = r_score rd + 1;
                 baseStr = ''hsl('' @ num_str (hue (baseColor ld)) @ '', '' @
                           num_str (sat (baseColor ld)) @ ''%, '' @
                           num_str (light (baseColor ld)) @ ''%)'';
                 diffStr = ''hsl('' @ num_str (hue (diffColor ld)) @ '', '' @
                           num_str (sat (diffColor ld)) @ ''%, '' @
                           num_str (light (diffColor ld)) @ ''%)'';
                 dlt = \<bar>hue (baseColor ld) - hue (diffColor ld)\<bar> +
                       \<bar>sat (baseColor ld) - sat (diffColor ld)\<bar> +
                       \<bar>light (baseColor ld) - light (diffColor ld)\<bar>;
                 (ld', g') = generateColor (of_int nextScore) g
             in (st\<lparr>score := nextScore,
                     lastDiff := Some \<lparr>base = baseStr, diff = diffStr, delta = toFixed2 dlt\<rparr>,
                     timeLeft := min 60 (timeLeft st + 2),
                     levelData := Some ld'\<rparr>, g'))
          else (st\<lparr>timeLeft := max 0 (timeLeft st - 5)\<rparr>, g))"

text \<open>
  One firing of the interval callback. It fires only while the interval runs. The
  updater reads the current \<^verbatim>\<open>timeLeft\<close> as \<^verbatim>\<open>prev\<close>; at \<^verbatim>\<open>prev <= 1\<close> it sets
  \<^verbatim>\<open>GAMEOVER\<close>, calls \<^verbatim>\<open>confetti\<close> and returns 0, and the effect hook then clears
  the interval.
\<close>

definition tick :: "Session \<Rightarrow> Session" where
  "tick st =
     (if \<not> timerArmed st then st
      else let prev = timeLeft st
           in if prev \<le> 1 then
                timerEffect (gameState st)
                  (st\<lparr>gameState := GAMEOVER, confettiCount := confettiCount st + 1,
                      timeLeft := 0\<rparr>)
              else st\<lparr>timeLeft := prev - 1\<rparr>)"

text \<open>The button of the header: \<^verbatim>\<open>onClick={() => setGameState('START')}\<close>.\<close>

definition showInfo :: "Session \<Rightarrow> Session" where
  "showInfo st = timerEffect (gameState st) (st\<lparr>gameState := START\<rparr>)"

text \<open>
  The events and a run of them from the initial session. A click on a cell runs the
  handler that the cell carries, so it needs a grid on screen; each change of state
  is followed by the render.
\<close>

datatype Event = Start | CellClicked int | Tick | Info | GridExited

fun step :: "Session \<times> rng \<Rightarrow> Event \<Rightarrow> Session \<times> rng" where
  "step (st, g) Start = (let (st', g') = startGame st g in (commit st', g'))"
| "step (st, g) (CellClicked i) =
     (case grid st of
        None \<Rightarrow> (st, g)
      | Some rd \<Rightarrow> (let (st', g') = handleBlockClick i rd st g in (commit st', g')))"
| "step (st, g) Tick = (commit (tick st), g)"
| "step (st, g) Info = (commit (showInfo st), g)"
| "step (st, g) GridExited = (gridExited st, g)"

definition run :: "rng \<Rightarrow> Event list \<Rightarrow> Session \<times> rng" where
  "run g es = foldl step (initialSession, g) es"

definition session_inv :: "Session \<Rightarrow> bool" where
  "session_inv st \<longleftrightarrow> 0 \<le> score st \<and> 0 \<le> timeLeft st \<and> timeLeft st \<le> 60"

text \<open>
  The grid on screen was drawn by a render in \<open>PLAYING\<close> that had a round and saw a
  score that is not negative.
\<close>

definition grid_inv :: "Session \<Rightarrow> bool" where
  "grid_inv st \<longleftrightarrow>
     (case grid st of
        None \<Rightarrow> True
      | Some rd \<Rightarrow> 0 \<le> r_score rd \<and> r_gameState rd = PLAYING \<and> r_levelData rd \<noteq> None)"

text \<open>While \<open>PLAYING\<close> there is a round, and the grid on screen is that of the last render.\<close>

definition current_inv :: "Session \<Rightarrow> bool" where
  "current_inv st \<longleftrightarrow>
     (gameState st = PLAYING \<longrightarrow> levelData st \<noteq> None \<and> grid st = Some (render st))"

text \<open>The interval runs exactly while the state is \<open>PLAYING\<close>.\<close>

definition timer_inv :: "Session \<Rightarrow> bool" where
  "timer_inv st \<longleftrightarrow> (timerArmed st \<longleftrightarrow> gameState st = PLAYING)"

text \<open>Multiples of a quarter: the values the generator computes from an integer difficulty.\<close>

definition quarter :: "rat \<Rightarrow> bool" where
  "quarter x \<longleftrightarrow> (\<exists>k::int. x = of_int k / 4)"

subsection \<open>Concrete inputs\<close>

text \<open>
  Two random sources, every draw \<open>0.5\<close>, and every draw \<open>0.999\<close> but a \<^verbatim>\<open>type\<close>
  of 0 (base hue 359, hue branch, so the new hue wraps); the round that
  \<open>generateColor 0\<close> makes from the first; a session in play holding that round,
  its grid drawn by the current render.
\<close>

definition sampleRng :: rng where
  "sampleRng = (\<lambda>n. 1 / 2)"

definition wrapRng :: rng where
  "wrapRng = (\<lambda>n. if n = 3 then 0 else 999 / 1000)"

definition sampleRound :: LevelData where
  "sampleRound =
     \<lparr>baseColor = \<lparr>hue = 180, sat = 60, light = 50\<rparr>,
      diffColor = \<lparr>hue = 180, sat = 45, light = 50\<rparr>, diffIndex = 12, gridSize = 5\<rparr>"

definition sampleSession :: Session where
  "sampleSession =
     \<lparr>gameState = PLAYING, score = 3, timeLeft = 59, levelData = Some sampleRound,
      lastDiff = None, timerArmed = True, confettiCount = 0,
      grid = Some \<lparr>r_gameState = PLAYING, r_score = 3, r_levelData = Some sampleRound\<rparr>\<rparr>"

section \<open>Facts about the built-ins\<close>

lemma floor_rat_numeral_div [simp]:
  "\<lfloor>numeral a / numeral b :: rat\<rfloor> = numeral a div numeral b"
  by (metis floor_divide_of_int_eq of_int_numeral)

lemma floor_rat_one_div [simp]:
  "\<lfloor>1 / numeral b :: rat\<rfloor> = 1 div numeral b"
  by (metis floor_divide_of_int_eq of_int_1 of_int_numeral)

section \<open>The generator, branch by branch\<close>

lemma generateColor_base:
  "baseColor (fst (generateColor difficulty g)) =
     \<lparr>hue = of_int \<lfloor>g 0 * 360\<rfloor>, sat = of_int \<lfloor>g 1 * 40\<rfloor> + 40,
      light = of_int \<lfloor>g 2 * 40\<rfloor> + 30\<rparr>"
  by (simp add: generateColor_def Math_random_def Math_floor_def Let_def eval_nat_numeral split: prod.splits)

lemma generateColor_gridSize: "gridSize (fst (generateColor difficulty g)) = 5"
  by (simp add: generateColor_def Math_random_def Math_floor_def Let_def eval_nat_numeral split: prod.splits)

lemma generateColor_hue_branch:
  "g 3 < 33 / 100 \<Longrightarrow>
   diffColor (fst (generateColor difficulty g)) =
     \<lparr>hue = js_rem (of_int \<lfloor>g 0 * 360\<rfloor> + colorDelta difficulty) 360,
      sat = of_int \<lfloor>g 1 * 40\<rfloor> + 40, light = of_int \<lfloor>g 2 * 40\<rfloor> + 30\<rparr> \<and>
   diffIndex (fst (generateColor difficulty g)) = \<lfloor>g 4 * 25\<rfloor>"
  by (simp add: generateColor_def Math_random_def Math_floor_def Let_def eval_nat_numeral split: prod.splits)

lemma generateColor_sat_branch:
  "\<not> g 3 < 33 / 100 \<Longrightarrow> g 3 < 66 / 100 \<Longrightarrow>
   diffColor (fst (generateColor difficulty g)) =
     \<lparr>hue = of_int \<lfloor>g 0 * 360\<rfloor>,
      sat = min 100 (max 0 (of_int \<lfloor>g 1 * 40\<rfloor> + 40 +
              (if g 4 > 1 / 2 then colorDelta difficulty else - colorDelta difficulty))),
      light = of_int \<lfloor>g 2 * 40\<rfloor> + 30\<rparr> \<and>
   diffIndex (fst (generateColor difficulty g)) = \<lfloor>g 5 * 25\<rfloor>"
  by (simp add: generateColor_def Math_random_def Math_floor_def Let_def eval_nat_numeral split: prod.splits)

lemma generateColor_light_branch:
  "\<not> g 3 < 33 / 100 \<Longrightarrow> \<not> g 3 < 66 / 100 \<Longrightarrow>
   diffColor (fst (generateColor difficulty g)) =
     \<lparr>hue = of_int \<lfloor>g 0 * 360\<rfloor>, sat = of_int \<lfloor>g 1 * 40\<rfloor> + 40,
      light = min 100 (max 0 (of_int \<lfloor>g 2 * 40\<rfloor> + 30 +
              (if g 4 > 1 / 2 then colorDelta difficulty else - colorDelta difficulty)))\<rparr> \<and>
   diffIndex (fst (generateColor difficulty g)) = \<lfloor>g 5 * 25\<rfloor>"
  by (simp add: generateColor_def Math_random_def Math_floor_def Let_def eval_nat_numeral split: prod.splits)

lemma colorDelta_bounds: "0 \<le> d \<Longrightarrow> 3 / 2 \<le> colorDelta d \<and> colorDelta d \<le> 15"
  by (simp add: colorDelta_def)

lemma floor_mult_range:
  fixes r :: rat
  assumes "0 \<le> r" "r < 1" "0 < n"
  shows "0 \<le> \<lfloor>r * of_int n\<rfloor> \<and> \<lfloor>r * of_int n\<rfloor> < n"
proof -
  have "0 \<le> r * of_int n" using assms by simp
  moreover have "r * of_int n < of_int n" using assms by simp
  ultimately show ?thesis by (simp add: floor_less_iff)
qed

lemma draw_range:
  assumes "valid_rng g" "0 < n"
  shows "(0::rat) \<le> of_int \<lfloor>g i * of_int n\<rfloor>" "of_int \<lfloor>g i * of_int n\<rfloor> \<le> (of_int n - 1 :: rat)"
proof -
  have r: "0 \<le> g i" "g i < 1" using assms(1) by (simp_all add: valid_rng_def)
  from floor_mult_range [OF r assms(2)]
  have f: "0 \<le> \<lfloor>g i * of_int n\<rfloor>" "\<lfloor>g i * of_int n\<rfloor> \<le> n - 1" by simp_all
  show "(0::rat) \<le> of_int \<lfloor>g i * of_int n\<rfloor>" using f(1) by simp
  have "(of_int \<lfloor>g i * of_int n\<rfloor> :: rat) \<le> of_int (n - 1)" using f(2) by (simp only: of_int_le_iff)
  then show "of_int \<lfloor>g i * of_int n\<rfloor> \<le> (of_int n - 1 :: rat)" by simp
qed

lemma js_rem_wrap:
  assumes "0 \<le> a" "a < 2 * b" "0 < b"
  shows "js_rem a b = (if a < b then a else a - b)"
proof (cases "a < b")
  case True
  then have "\<lfloor>a / b\<rfloor> = 0" using assms by (simp add: floor_eq_iff)
  then show ?thesis using True assms by (simp add: js_rem_def)
next
  case False
  then have "\<lfloor>a / b\<rfloor> = 1"
    using assms by (simp add: floor_eq_iff pos_le_divide_eq pos_divide_less_eq)
  then show ?thesis using False assms by (simp add: js_rem_def)
qed

lemma base_ranges:
  assumes "valid_rng g"
  shows "0 \<le> hue (baseColor (fst (generateColor difficulty g)))"
    and "hue (baseColor (fst (generateColor difficulty g))) \<le> 359"
    and "40 \<le> sat (baseColor (fst (generateColor difficulty g)))"
    and "sat (baseColor (fst (generateColor difficulty g))) \<le> 79"
    and "30 \<le> light (baseColor (fst (generateColor difficulty g)))"
    and "light (baseColor (fst (generateColor difficulty g))) \<le> 69"
  using draw_range [OF assms, of 360 0] draw_range [OF assms, of 40 1]
    draw_range [OF assms, of 40 2]
  by (simp_all add: generateColor_base)

lemma hue_shift:
  assumes "0 \<le> x" "x \<le> 359" "3 / 2 \<le> dl" "dl \<le> 15"
  shows "js_rem (x + dl) 360 = (if x + dl < 360 then x + dl else x + dl - 360)"
    and "js_rem (x + dl) 360 \<noteq> x"
    and "0 \<le> js_rem (x + dl) 360" and "js_rem (x + dl) 360 < 360"
proof -
  have w: "js_rem (x + dl) 360 = (if x + dl < 360 then x + dl else x + dl - 360)"
    using assms by (intro js_rem_wrap) simp_all
  show "js_rem (x + dl) 360 = (if x + dl < 360 then x + dl else x + dl - 360)" by (rule w)
  show "js_rem (x + dl) 360 \<noteq> x" using assms by (simp add: w)
  show "0 \<le> js_rem (x + dl) 360" using assms by (simp add: w)
  show "js_rem (x + dl) 360 < 360" using assms by (simp add: w)
qed

lemma clamp_free:
  fixes x :: rat
  assumes "30 \<le> x" "x \<le> 79" "3 / 2 \<le> dl" "dl \<le> 15"
  shows "min 100 (max 0 (x + (if b then dl else - dl))) = x + (if b then dl else - dl)"
    and "x + (if b then dl else - dl) \<noteq> x"
    and "0 < x + (if b then dl else - dl)" and "x + (if b then dl else - dl) < 100"
  using assms by (cases b; simp)+

lemma diffIndex_range:
  assumes "valid_rng g"
  shows "0 \<le> diffIndex (fst (generateColor difficulty g)) \<and>
         diffIndex (fst (generateColor difficulty g)) < 25"
proof -
  have r: "0 \<le> g i \<and> g i < 1" for i using assms by (simp add: valid_rng_def)
  have f: "0 \<le> \<lfloor>g i * 25\<rfloor> \<and> \<lfloor>g i * 25\<rfloor> < 25" for i
    using floor_mult_range [of "g i" 25] r [of i] by simp
  show ?thesis
  proof (cases "g 3 < 33 / 100")
    case True
    then show ?thesis using f [of 4] by (simp add: generateColor_hue_branch)
  next
    case False
    then show ?thesis
      using f [of 5]
      by (cases "g 3 < 66 / 100")
         (simp_all add: generateColor_sat_branch generateColor_light_branch)
  qed
qed

lemma channelOf_cases:
  "channelOf ty = Hue \<longleftrightarrow> ty < 33 / 100"
  "channelOf ty = Saturation \<longleftrightarrow> \<not> ty < 33 / 100 \<and> ty < 66 / 100"
  "channelOf ty = Lightness \<longleftrightarrow> \<not> ty < 33 / 100 \<and> \<not> ty < 66 / 100"
  by (simp_all add: channelOf_def)

text \<open>What the generator returns on each branch, for a valid source and a difficulty \<open>\<ge> 0\<close>.\<close>

lemma generated_hue:
  assumes "0 \<le> d" "valid_rng g" "g 3 < 33 / 100"
  defines "ld \<equiv> fst (generateColor d g)"
  shows "hue (diffColor ld) = js_rem (hue (baseColor ld) + colorDelta d) 360"
    and "hue (diffColor ld) \<noteq> hue (baseColor ld)"
    and "sat (diffColor ld) = sat (baseColor ld)"
    and "light (diffColor ld) = light (baseColor ld)"
    and "0 \<le> hue (diffColor ld)" and "hue (diffColor ld) < 360"
    and "hue (diffColor ld) = hue (baseColor ld) + colorDelta d \<or>
         hue (diffColor ld) = hue (baseColor ld) + colorDelta d - 360"
proof -
  let ?L = "fst (generateColor d g)"
  note b = base_ranges [OF assms(2), of d] colorDelta_bounds [OF assms(1)]
  note hs = hue_shift [OF b(1) b(2) b(7)[THEN conjunct1] b(7)[THEN conjunct2]]
  have e: "hue (diffColor ?L) = js_rem (hue (baseColor ?L) + colorDelta d) 360"
    "sat (diffColor ?L) = sat (baseColor ?L)" "light (diffColor ?L) = light (baseColor ?L)"
    using assms(3) by (simp_all add: generateColor_hue_branch generateColor_base)
  show "hue (diffColor ld) = js_rem (hue (baseColor ld) + colorDelta d) 360"
    unfolding ld_def by (rule e)
  show "sat (diffColor ld) = sat (baseColor ld)" unfolding ld_def by (rule e)
  show "light (diffColor ld) = light (baseColor ld)" unfolding ld_def by (rule e)
  show "hue (diffColor ld) \<noteq> hue (baseColor ld)" unfolding ld_def e(1) by (rule hs)
  show "0 \<le> hue (diffColor ld)" unfolding ld_def e(1) by (rule hs)
  show "hue (diffColor ld) < 360" unfolding ld_def e(1) by (rule hs)
  show "hue (diffColor ld) = hue (baseColor ld) + colorDelta d \<or>
         hue (diffColor ld) = hue (baseColor ld) + colorDelta d - 360"
    unfolding ld_def e(1) hs(1) by simp
qed

lemma generated_sat:
  assumes "0 \<le> d" "valid_rng g" "\<not> g 3 < 33 / 100" "g 3 < 66 / 100"
  defines "ld \<equiv> fst (generateColor d g)"
  shows "hue (diffColor ld) = hue (baseColor ld)"
    and "sat (diffColor ld) =
         sat (baseColor ld) + (if g 4 > 1 / 2 then colorDelta d else - colorDelta d)"
    and "sat (diffColor ld) \<noteq> sat (baseColor ld)"
    and "light (diffColor ld) = light (baseColor ld)"
    and "0 < sat (diffColor ld)" and "sat (diffColor ld) < 100"
proof -
  let ?L = "fst (generateColor d g)"
  note b = base_ranges [OF assms(2), of d] colorDelta_bounds [OF assms(1)]
  have c: "30 \<le> sat (baseColor ?L)" using b(3) by simp
  note cf = clamp_free [OF c b(4) b(7)[THEN conjunct1] b(7)[THEN conjunct2], of "g 4 > 1 / 2"]
  have e: "hue (diffColor ?L) = hue (baseColor ?L)"
    "sat (diffColor ?L) = min 100 (max 0 (sat (baseColor ?L) +
        (if g 4 > 1 / 2 then colorDelta d else - colorDelta d)))"
    "light (diffColor ?L) = light (baseColor ?L)"
    using assms(3,4) by (simp_all add: generateColor_sat_branch generateColor_base)
  have s: "sat (diffColor ?L) =
         sat (baseColor ?L) + (if g 4 > 1 / 2 then colorDelta d else - colorDelta d)"
    unfolding e(2) by (rule cf(1))
  show "hue (diffColor ld) = hue (baseColor ld)" unfolding ld_def by (rule e)
  show "light (diffColor ld) = light (baseColor ld)" unfolding ld_def by (rule e)
  show "sat (diffColor ld) =
         sat (baseColor ld) + (if g 4 > 1 / 2 then colorDelta d else - colorDelta d)"
    unfolding ld_def by (rule s)
  show "sat (diffColor ld) \<noteq> sat (baseColor ld)" unfolding ld_def s by (rule cf(2))
  show "0 < sat (diffColor ld)" unfolding ld_def s by (rule cf(3))
  show "sat (diffColor ld) < 100" unfolding ld_def s by (rule cf(4))
qed

lemma generated_light:
  assumes "0 \<le> d" "valid_rng g" "\<not> g 3 < 33 / 100" "\<not> g 3 < 66 / 100"
  defines "ld \<equiv> fst (generateColor d g)"
  shows "hue (diffColor ld) = hue (baseColor ld)"
    and "sat (diffColor ld) = sat (baseColor ld)"
    and "light (diffColor ld) =
         light (baseColor ld) + (if g 4 > 1 / 2 then colorDelta d else - colorDelta d)"
    and "light (diffColor ld) \<noteq> light (baseColor ld)"
    and "0 < light (diffColor ld)" and "light (diffColor ld) < 100"
proof -
  let ?L = "fst (generateColor d g)"
  note b = base_ranges [OF assms(2), of d] colorDelta_bounds [OF assms(1)]
  have c: "light (baseColor ?L) \<le> 79" using b(6) by simp
  note cf = clamp_free [OF b(5) c b(7)[THEN conjunct1] b(7)[THEN conjunct2], of "g 4 > 1 / 2"]
  have e: "hue (diffColor ?L) = hue (baseColor ?L)"
    "light (diffColor ?L) = min 100 (max 0 (light (baseColor ?L) +
        (if g 4 > 1 / 2 then colorDelta d else - colorDelta d)))"
    "sat (diffColor ?L) = sat (baseColor ?L)"
    using assms(3,4) by (simp_all add: generateColor_light_branch generateColor_base)
  have s: "light (diffColor ?L) =
         light (baseColor ?L) + (if g 4 > 1 / 2 then colorDelta d else - colorDelta d)"
    unfolding e(2) by (rule cf(1))
  show "hue (diffColor ld) = hue (baseColor ld)" unfolding ld_def by (rule e)
  show "sat (diffColor ld) = sat (baseColor ld)" unfolding ld_def by (rule e)
  show "light (diffColor ld) =
         light (baseColor ld) + (if g 4 > 1 / 2 then colorDelta d else - colorDelta d)"
    unfolding ld_def by (rule s)
  show "light (diffColor ld) \<noteq> light (baseColor ld)" unfolding ld_def s by (rule cf(2))
  show "0 < light (diffColor ld)" unfolding ld_def s by (rule cf(3))
  show "light (diffColor ld) < 100" unfolding ld_def s by (rule cf(4))
qed


section \<open>The perturbation magnitude\<close>

text \<open>
  Claim C1. For every integer difficulty \<open>d \<ge> 0\<close> the perturbation magnitude of the
  generator is \<open>max(1.5, 15 - 0.25 d)\<close>; it is 15 at difficulty 0 and 1.5 at every
  difficulty from 54 on.
\<close>

theorem colorDelta_formula:
  "0 \<le> d \<Longrightarrow>
   colorDelta (of_int d) = max (3 / 2) (15 - (1 / 4) * of_int d) \<and>
   colorDelta 0 = 15 \<and>
   (54 \<le> d \<longrightarrow> colorDelta (of_int d) = 3 / 2)"
  by (auto simp add: colorDelta_def max_def)

theorem colorDelta_formula_witness:
  "(0::int) \<le> 60 \<and> (54::int) \<le> 60 \<and> colorDelta (of_int 60) = 3 / 2 \<and> colorDelta 0 = 15"
  using colorDelta_formula [of 60] by simp

section \<open>Generated rounds\<close>

text \<open>
  Claim C2. For a difficulty \<open>d \<ge> 0\<close> and every outcome of the random source, the
  round has \<open>0 \<le> diffIndex < 25\<close>; exactly one of hue, saturation and lightness
  differs between \<open>baseColor\<close> and \<open>diffColor\<close>, the other two being equal; and when
  the hue differs, the new hue is \<open>(baseHue + delta) % 360\<close>, which lies in
  \<open>[0, 360)\<close> and is \<open>baseHue + delta\<close> or \<open>baseHue + delta - 360\<close>: the additive
  direction, reduced modulo 360.
\<close>

theorem generateColor_one_channel:
  assumes "0 \<le> d" and "valid_rng g" and "ld = fst (generateColor (of_int d) g)"
  shows "0 \<le> diffIndex ld \<and> diffIndex ld < 25 \<and>
     ((hue (diffColor ld) \<noteq> hue (baseColor ld) \<and> sat (diffColor ld) = sat (baseColor ld) \<and>
         light (diffColor ld) = light (baseColor ld)) \<or>
      (hue (diffColor ld) = hue (baseColor ld) \<and> sat (diffColor ld) \<noteq> sat (baseColor ld) \<and>
         light (diffColor ld) = light (baseColor ld)) \<or>
      (hue (diffColor ld) = hue (baseColor ld) \<and> sat (diffColor ld) = sat (baseColor ld) \<and>
         light (diffColor ld) \<noteq> light (baseColor ld))) \<and>
     (hue (diffColor ld) \<noteq> hue (baseColor ld) \<longrightarrow>
        hue (diffColor ld) = js_rem (hue (baseColor ld) + colorDelta (of_int d)) 360 \<and>
        0 \<le> hue (diffColor ld) \<and> hue (diffColor ld) < 360 \<and>
        (hue (diffColor ld) = hue (baseColor ld) + colorDelta (of_int d) \<or>
         hue (diffColor ld) = hue (baseColor ld) + colorDelta (of_int d) - 360))"
proof -
  have d: "(0::rat) \<le> of_int d" using assms(1) by simp
  note idx = diffIndex_range [OF assms(2), of "of_int d"]
  consider (hue) "g 3 < 33 / 100"
    | (sat) "\<not> g 3 < 33 / 100" "g 3 < 66 / 100"
    | (light) "\<not> g 3 < 33 / 100" "\<not> g 3 < 66 / 100"
    by blast
  then show ?thesis
  proof cases
    case hue
    from generated_hue [OF d assms(2) hue] idx show ?thesis
      unfolding assms(3) by simp
  next
    case sat
    from generated_sat [OF d assms(2) sat] idx show ?thesis
      unfolding assms(3) by simp
  next
    case light
    from generated_light [OF d assms(2) light] idx show ?thesis
      unfolding assms(3) by simp
  qed
qed

theorem generateColor_one_channel_witness:
  "0 \<le> (3::int) \<and> valid_rng (\<lambda>n. 1 / 4) \<and>
   diffIndex (fst (generateColor (of_int 3) (\<lambda>n. 1 / 4))) < 25 \<and>
   hue (diffColor (fst (generateColor (of_int 3) (\<lambda>n. 1 / 4)))) = 417 / 4 \<and>
   hue (diffColor (fst (generateColor (of_int 3) (\<lambda>n. 1 / 4)))) =
     hue (baseColor (fst (generateColor (of_int 3) (\<lambda>n. 1 / 4)))) + colorDelta (of_int 3)"
proof -
  have v: "valid_rng (\<lambda>n. 1 / 4)" by (simp add: valid_rng_def)
  have e: "fst (generateColor 3 (\<lambda>n. 1 / 4)) =
   \<lparr>baseColor = \<lparr>hue = 90, sat = 50, light = 40\<rparr>,
    diffColor = \<lparr>hue = 417 / 4, sat = 50, light = 40\<rparr>, diffIndex = 6, gridSize = 5\<rparr>"
    by (simp add: generateColor_def Math_random_def Math_floor_def colorDelta_def js_rem_def)
  from generateColor_one_channel [OF _ v refl, of 3] v show ?thesis
    by (simp add: e colorDelta_def)
qed

text \<open>
  Claim C10. For a difficulty \<open>d \<ge> 0\<close> and every outcome of the random source,
  \<open>diffColor\<close> differs from \<open>baseColor\<close>: on the hue branch the wrapped hue is not
  the base hue; on the saturation and lightness branches the clamp to \<open>[0, 100]\<close>
  does not bind, the new value being the base value plus or minus \<open>delta\<close>, strictly
  between 0 and 100 and different from the base value.
\<close>

theorem generateColor_differs:
  assumes "0 \<le> d" and "valid_rng g" and "ld = fst (generateColor (of_int d) g)"
  shows "diffColor ld \<noteq> baseColor ld \<and>
     (channelOf (g 3) = Hue \<longrightarrow> hue (diffColor ld) \<noteq> hue (baseColor ld)) \<and>
     (channelOf (g 3) = Saturation \<longrightarrow>
        sat (diffColor ld) = sat (baseColor ld) +
          (if g 4 > 1 / 2 then colorDelta (of_int d) else - colorDelta (of_int d)) \<and>
        sat (diffColor ld) \<noteq> sat (baseColor ld) \<and>
        0 < sat (diffColor ld) \<and> sat (diffColor ld) < 100) \<and>
     (channelOf (g 3) = Lightness \<longrightarrow>
        light (diffColor ld) = light (baseColor ld) +
          (if g 4 > 1 / 2 then colorDelta (of_int d) else - colorDelta (of_int d)) \<and>
        light (diffColor ld) \<noteq> light (baseColor ld) \<and>
        0 < light (diffColor ld) \<and> light (diffColor ld) < 100)"
proof -
  have d: "(0::rat) \<le> of_int d" using assms(1) by simp
  consider (hue) "g 3 < 33 / 100"
    | (sat) "\<not> g 3 < 33 / 100" "g 3 < 66 / 100"
    | (light) "\<not> g 3 < 33 / 100" "\<not> g 3 < 66 / 100"
    by blast
  then show ?thesis
  proof cases
    case hue
    from generated_hue(2) [OF d assms(2) hue]
    have "diffColor ld \<noteq> baseColor ld" unfolding assms(3) by auto
    with generated_hue(2) [OF d assms(2) hue] hue show ?thesis
      unfolding assms(3) by (simp add: channelOf_cases)
  next
    case sat
    from generated_sat(3) [OF d assms(2) sat]
    have "diffColor ld \<noteq> baseColor ld" unfolding assms(3) by auto
    with generated_sat(2,3,5,6) [OF d assms(2) sat] sat show ?thesis
      unfolding assms(3) by (simp add: channelOf_cases)
  next
    case light
    from generated_light(4) [OF d assms(2) light]
    have "diffColor ld \<noteq> baseColor ld" unfolding assms(3) by auto
    with generated_light(3,4,5,6) [OF d assms(2) light] light show ?thesis
      unfolding assms(3) by (simp add: channelOf_cases)
  qed
qed

theorem generateColor_differs_witness:
  "0 \<le> (0::int) \<and> valid_rng (\<lambda>n. 1 / 2) \<and> channelOf (1 / 2) = Saturation \<and>
   diffColor (fst (generateColor (of_int 0) (\<lambda>n. 1 / 2))) \<noteq>
     baseColor (fst (generateColor (of_int 0) (\<lambda>n. 1 / 2))) \<and>
   sat (diffColor (fst (generateColor (of_int 0) (\<lambda>n. 1 / 2)))) = 45 \<and>
   sat (baseColor (fst (generateColor (of_int 0) (\<lambda>n. 1 / 2)))) = 60"
proof -
  have v: "valid_rng (\<lambda>n. 1 / 2)" by (simp add: valid_rng_def)
  have c: "channelOf (1 / 2) = Saturation" by (simp add: channelOf_def)
  have b: "baseColor (fst (generateColor 0 (\<lambda>n. 1 / 2))) = \<lparr>hue = 180, sat = 60, light = 50\<rparr>"
    by (simp add: generateColor_base)
  from generateColor_differs [OF _ v refl, of 0] v c show ?thesis
    by (simp add: b colorDelta_def)
qed

section \<open>The concrete inputs, evaluated\<close>

lemma sampleRng_valid: "valid_rng sampleRng"
  by (simp add: valid_rng_def sampleRng_def)

lemma generate_sample: "fst (generateColor 0 sampleRng) = sampleRound"
  by (simp add: generateColor_def Math_random_def Math_floor_def colorDelta_def
      sampleRng_def sampleRound_def)

lemma generate_wrap:
  "fst (generateColor 0 wrapRng) =
     \<lparr>baseColor = \<lparr>hue = 359, sat = 79, light = 69\<rparr>,
      diffColor = \<lparr>hue = 14, sat = 79, light = 69\<rparr>, diffIndex = 24, gridSize = 5\<rparr>"
  by (simp add: generateColor_def Math_random_def Math_floor_def colorDelta_def js_rem_def
      wrapRng_def)

lemma css_wrap:
  "colorToCss \<lparr>hue = 359, sat = 79, light = 69\<rparr> = ''hsl(359, 79%, 69%)''"
  "colorToCss \<lparr>hue = 14, sat = 79, light = 69\<rparr> = ''hsl(14, 79%, 69%)''"
  by code_simp+

lemma css_quarter:
  "colorToCss \<lparr>hue = 417 / 4, sat = 50, light = 3 / 2\<rparr> = ''hsl(104.25, 50%, 1.5%)''"
  by code_simp

lemma run_start:
  "fst (run sampleRng [Start]) =
     \<lparr>gameState = PLAYING, score = 0, timeLeft = 60, levelData = Some sampleRound,
      lastDiff = None, timerArmed = True, confettiCount = 0,
      grid = Some \<lparr>r_gameState = PLAYING, r_score = 0, r_levelData = Some sampleRound\<rparr>\<rparr>"
proof -
  have "fst (startGame initialSession sampleRng) =
     \<lparr>gameState = PLAYING, score = 0, timeLeft = 60, levelData = Some sampleRound,
      lastDiff = None, timerArmed = True, confettiCount = 0, grid = None\<rparr>"
    by (simp add: startGame_def timerEffect_def initialSession_def case_prod_beta
        generate_sample)
  then show ?thesis by (simp add: run_def case_prod_beta commit_def render_def)
qed

section \<open>Which channel is perturbed\<close>

lemma count_interval:
  assumes "a \<le> b" "b \<le> n"
  shows "length (filter (\<lambda>k. a \<le> k \<and> k < b) [0..<n]) = b - a"
proof -
  have "{i. i < length [0..<n] \<and> a \<le> [0..<n] ! i \<and> [0..<n] ! i < b} = {a..<b}"
    using assms by auto
  then show ?thesis by (simp add: length_filter_conv_card)
qed

lemma grid_less:
  assumes "0 < m"
  shows "(of_nat k / of_nat (100 * m) < (of_nat c / 100 :: rat)) = (k < c * m)"
proof -
  have m: "(0::rat) < of_nat m" using assms by simp
  have "(of_nat k / of_nat (100 * m) < (of_nat c / 100 :: rat)) =
        ((of_nat k :: rat) < of_nat c * of_nat m)"
    using m by (simp add: field_simps)
  also have "\<dots> = ((of_nat k :: rat) < of_nat (c * m))" by simp
  also have "\<dots> = (k < c * m)" by (simp only: of_nat_less_iff)
  finally show ?thesis .
qed

lemma typeCount_grid:
  assumes "0 < m"
  shows "typeCount (100 * m) Hue = 33 * m"
    and "typeCount (100 * m) Saturation = 33 * m"
    and "typeCount (100 * m) Lightness = 34 * m"
proof -
  have l33: "(of_nat k / of_nat (100 * m) < (33 / 100 :: rat)) = (k < 33 * m)" for k
    using grid_less [OF assms, of k 33] by simp
  have l66: "(of_nat k / of_nat (100 * m) < (66 / 100 :: rat)) = (k < 66 * m)" for k
    using grid_less [OF assms, of k 66] by simp
  have h: "(channelOf (of_nat k / of_nat (100 * m)) = Hue) = (0 \<le> k \<and> k < 33 * m)" for k
    unfolding channelOf_cases l33 by simp
  have s: "(channelOf (of_nat k / of_nat (100 * m)) = Saturation) =
           (33 * m \<le> k \<and> k < 66 * m)" for k
    unfolding channelOf_cases l33 l66 by auto
  have l: "k < 100 * m \<Longrightarrow> (channelOf (of_nat k / of_nat (100 * m)) = Lightness) =
           (66 * m \<le> k \<and> k < 100 * m)" for k
    unfolding channelOf_cases l33 l66 by auto
  show "typeCount (100 * m) Hue = 33 * m"
    unfolding typeCount_def h using count_interval [of 0 "33 * m" "100 * m"] by simp
  show "typeCount (100 * m) Saturation = 33 * m"
    unfolding typeCount_def s using count_interval [of "33 * m" "66 * m" "100 * m"] by simp
  have "filter (\<lambda>k. channelOf (of_nat k / of_nat (100 * m)) = Lightness) [0..<100 * m] =
        filter (\<lambda>k. 66 * m \<le> k \<and> k < 100 * m) [0..<100 * m]"
  proof (rule filter_cong [OF refl])
    fix k assume "k \<in> set [0..<100 * m]"
    then have "k < 100 * m" by simp
    then show "(channelOf (of_nat k / of_nat (100 * m)) = Lightness) =
           (66 * m \<le> k \<and> k < 100 * m)" by (rule l)
  qed
  then show "typeCount (100 * m) Lightness = 34 * m"
    unfolding typeCount_def using count_interval [of "66 * m" "100 * m" "100 * m"] by simp
qed

lemma generateColor_channel:
  assumes "0 \<le> d" and "valid_rng g"
  shows "(hue (diffColor (fst (generateColor d g))) \<noteq> hue (baseColor (fst (generateColor d g)))) =
           (channelOf (g 3) = Hue)"
    and "(sat (diffColor (fst (generateColor d g))) \<noteq> sat (baseColor (fst (generateColor d g)))) =
           (channelOf (g 3) = Saturation)"
    and "(light (diffColor (fst (generateColor d g))) \<noteq>
            light (baseColor (fst (generateColor d g)))) =
           (channelOf (g 3) = Lightness)"
proof -
  consider (hue) "g 3 < 33 / 100"
    | (sat) "\<not> g 3 < 33 / 100" "g 3 < 66 / 100"
    | (light) "\<not> g 3 < 33 / 100" "\<not> g 3 < 66 / 100"
    by blast
  then have "(hue (diffColor (fst (generateColor d g))) \<noteq>
                hue (baseColor (fst (generateColor d g)))) = (channelOf (g 3) = Hue) \<and>
      (sat (diffColor (fst (generateColor d g))) \<noteq>
                sat (baseColor (fst (generateColor d g)))) = (channelOf (g 3) = Saturation) \<and>
      (light (diffColor (fst (generateColor d g))) \<noteq>
                light (baseColor (fst (generateColor d g)))) = (channelOf (g 3) = Lightness)"
  proof cases
    case hue
    from generated_hue(2,3,4) [OF assms hue] hue show ?thesis
      by (simp add: channelOf_cases)
  next
    case sat
    from generated_sat(1,3,4) [OF assms sat] sat show ?thesis
      by (simp add: channelOf_cases)
  next
    case light
    from generated_light(1,2,4) [OF assms light] light show ?thesis
      by (simp add: channelOf_cases)
  qed
  then show "(hue (diffColor (fst (generateColor d g))) \<noteq>
      hue (baseColor (fst (generateColor d g)))) = (channelOf (g 3) = Hue)"
    and "(sat (diffColor (fst (generateColor d g))) \<noteq>
      sat (baseColor (fst (generateColor d g)))) = (channelOf (g 3) = Saturation)"
    and "(light (diffColor (fst (generateColor d g))) \<noteq>
      light (baseColor (fst (generateColor d g)))) = (channelOf (g 3) = Lightness)"
    by simp_all
qed

text \<open>
  Claim C3, as the code has it. The channel is chosen by the fourth draw, \<^verbatim>\<open>type\<close>:
  hue when \<open>type < 0.33\<close>, saturation when \<open>0.33 \<le> type < 0.66\<close>, lightness when
  \<open>0.66 \<le> type\<close>, and the chosen channel is the one that differs in the round. For
  a uniform draw on a grid of \<open>100 m\<close> equally likely values the three channels get
  \<open>33 m\<close>, \<open>33 m\<close> and \<open>34 m\<close> of them: probabilities 0.33, 0.33 and 0.34.
\<close>

theorem channel_shares:
  assumes "0 < m" and "0 \<le> d" and "valid_rng g" and "ld = fst (generateColor (of_int d) g)"
  shows "typeCount (100 * m) Hue = 33 * m \<and>
     typeCount (100 * m) Saturation = 33 * m \<and>
     typeCount (100 * m) Lightness = 34 * m \<and>
     (hue (diffColor ld) \<noteq> hue (baseColor ld)) = (channelOf (g 3) = Hue) \<and>
     (sat (diffColor ld) \<noteq> sat (baseColor ld)) = (channelOf (g 3) = Saturation) \<and>
     (light (diffColor ld) \<noteq> light (baseColor ld)) = (channelOf (g 3) = Lightness)"
proof -
  have d: "(0::rat) \<le> of_int d" using assms(2) by simp
  show ?thesis
    unfolding assms(4)
    by (simp only: typeCount_grid [OF assms(1)] generateColor_channel [OF d assms(3)] simp_thms)
qed

theorem channel_shares_witness:
  "(0::nat) < 1 \<and> (0::int) \<le> 0 \<and> valid_rng sampleRng \<and>
   typeCount 100 Hue = 33 \<and> typeCount 100 Saturation = 33 \<and> typeCount 100 Lightness = 34 \<and>
   channelOf (sampleRng 3) = Saturation \<and>
   sat (diffColor (fst (generateColor (of_int 0) sampleRng))) \<noteq>
     sat (baseColor (fst (generateColor (of_int 0) sampleRng)))"
proof -
  have c: "channelOf (sampleRng 3) = Saturation" by (simp add: channelOf_def sampleRng_def)
  from channel_shares [OF _ _ sampleRng_valid refl, of 1 0] sampleRng_valid c
  show ?thesis by simp
qed

text \<open>
  Claim C3 as stated, refuted: on the grid of 300 equally likely draws, where a share
  of exactly one third would be 100 draws, the channels get 99, 99 and 102.
\<close>

theorem channel_thirds_counterexample:
  "typeCount 300 Hue = 99 \<and> typeCount 300 Saturation = 99 \<and> typeCount 300 Lightness = 102 \<and>
   \<not> (3 * typeCount 300 Hue = 300 \<and> 3 * typeCount 300 Saturation = 300 \<and>
      3 * typeCount 300 Lightness = 300)"
  using typeCount_grid [of 3] by simp

section \<open>The session\<close>

lemma startGame_fields:
  "gameState (fst (startGame st g)) = PLAYING"
  "score (fst (startGame st g)) = 0"
  "timeLeft (fst (startGame st g)) = 60"
  "timerArmed (fst (startGame st g)) = (if gameState st = PLAYING then timerArmed st else True)"
  "levelData (fst (startGame st g)) = Some (fst (generateColor 0 g))"
  "lastDiff (fst (startGame st g)) = None"
  "grid (fst (startGame st g)) = grid st"
  by (simp_all add: startGame_def timerEffect_def Let_def split: prod.splits)

lemma handleBlockClick_frame:
  "gameState (fst (handleBlockClick i rd st g)) = gameState st"
  "timerArmed (fst (handleBlockClick i rd st g)) = timerArmed st"
  "confettiCount (fst (handleBlockClick i rd st g)) = confettiCount st"
  "grid (fst (handleBlockClick i rd st g)) = grid st"
  by (simp_all add: handleBlockClick_def Let_def split: prod.splits option.splits)

lemma handleBlockClick_levelData:
  "levelData st \<noteq> None \<Longrightarrow> levelData (fst (handleBlockClick i rd st g)) \<noteq> None"
  by (simp add: handleBlockClick_def Let_def split: prod.splits option.splits)

lemma handleBlockClick_inv:
  "session_inv st \<Longrightarrow> 0 \<le> r_score rd \<Longrightarrow> session_inv (fst (handleBlockClick i rd st g))"
  by (simp add: handleBlockClick_def session_inv_def Let_def split: prod.splits option.splits)

lemma tick_inv: "session_inv st \<Longrightarrow> session_inv (tick st)"
  by (simp add: tick_def timerEffect_def session_inv_def Let_def)

lemma showInfo_inv: "session_inv st \<Longrightarrow> session_inv (showInfo st)"
  by (simp add: showInfo_def timerEffect_def session_inv_def)

lemma startGame_inv: "session_inv (fst (startGame st g))"
  by (simp add: session_inv_def startGame_fields)

text \<open>The render and the end of the exit animation touch the grid only.\<close>

lemma commit_fields:
  "gameState (commit st) = gameState st" "score (commit st) = score st"
  "timeLeft (commit st) = timeLeft st" "levelData (commit st) = levelData st"
  "lastDiff (commit st) = lastDiff st" "timerArmed (commit st) = timerArmed st"
  "confettiCount (commit st) = confettiCount st"
  by (simp_all add: commit_def)

lemma gridExited_fields:
  "gameState (gridExited st) = gameState st" "score (gridExited st) = score st"
  "timeLeft (gridExited st) = timeLeft st" "levelData (gridExited st) = levelData st"
  "lastDiff (gridExited st) = lastDiff st" "timerArmed (gridExited st) = timerArmed st"
  "confettiCount (gridExited st) = confettiCount st"
  by (simp_all add: gridExited_def)

lemma commit_session_inv: "session_inv (commit st) = session_inv st"
  by (simp add: session_inv_def commit_fields)

lemma commit_grid_inv: "session_inv st \<Longrightarrow> grid_inv st \<Longrightarrow> grid_inv (commit st)"
  by (simp add: grid_inv_def commit_def render_def session_inv_def)

lemma step_inv:
  assumes "session_inv (fst p) \<and> grid_inv (fst p)"
  shows "session_inv (fst (step p e)) \<and> grid_inv (fst (step p e))"
proof (cases p)
  case (Pair st g)
  with assms have i: "session_inv st" "grid_inv st" by simp_all
  show ?thesis
  proof (cases e)
    case Start
    have "session_inv (fst (startGame st g))" by (rule startGame_inv)
    moreover have "grid_inv (fst (startGame st g))"
      using i(2) by (simp add: grid_inv_def startGame_fields)
    ultimately show ?thesis
      using Pair Start by (simp add: case_prod_beta commit_session_inv commit_grid_inv)
  next
    case (CellClicked k)
    show ?thesis
    proof (cases "grid st")
      case None
      then show ?thesis using Pair CellClicked i by simp
    next
      case (Some rd)
      then have r: "0 \<le> r_score rd" using i(2) by (simp add: grid_inv_def)
      have "session_inv (fst (handleBlockClick k rd st g))"
        using i(1) r by (rule handleBlockClick_inv)
      moreover have "grid_inv (fst (handleBlockClick k rd st g))"
        using i(2) by (simp add: grid_inv_def handleBlockClick_frame)
      ultimately show ?thesis
        using Pair CellClicked Some
        by (simp add: case_prod_beta commit_session_inv commit_grid_inv)
    qed
  next
    case Tick
    have "session_inv (tick st)" using i(1) by (rule tick_inv)
    moreover have "grid_inv (tick st)"
      using i(2) by (simp add: grid_inv_def tick_def timerEffect_def Let_def)
    ultimately show ?thesis
      using Pair Tick by (simp add: commit_session_inv commit_grid_inv)
  next
    case Info
    have "session_inv (showInfo st)" using i(1) by (rule showInfo_inv)
    moreover have "grid_inv (showInfo st)"
      using i(2) by (simp add: grid_inv_def showInfo_def timerEffect_def)
    ultimately show ?thesis
      using Pair Info by (simp add: commit_session_inv commit_grid_inv)
  next
    case GridExited
    then show ?thesis
      using Pair i by (simp add: session_inv_def grid_inv_def gridExited_def)
  qed
qed

lemma foldl_step_inv:
  "session_inv (fst p) \<and> grid_inv (fst p) \<Longrightarrow>
   session_inv (fst (foldl step p es)) \<and> grid_inv (fst (foldl step p es))"
proof (induction es arbitrary: p)
  case Nil
  then show ?case by simp
next
  case (Cons e es)
  from Cons.prems have "session_inv (fst (step p e)) \<and> grid_inv (fst (step p e))"
    by (rule step_inv)
  then show ?case using Cons.IH [of "step p e"] by simp
qed

lemma run_inv: "session_inv (fst (run g es)) \<and> grid_inv (fst (run g es))"
  unfolding run_def
  by (rule foldl_step_inv) (simp add: session_inv_def grid_inv_def initialSession_def)

lemma step_timer_inv: "timer_inv (fst p) \<Longrightarrow> timer_inv (fst (step p e))"
proof (cases p)
  case (Pair st g)
  assume "timer_inv (fst p)"
  with Pair have t: "timerArmed st = (gameState st = PLAYING)" by (simp add: timer_inv_def)
  show ?thesis
  proof (cases e)
    case Start
    then show ?thesis
      using Pair t by (simp add: timer_inv_def case_prod_beta commit_fields startGame_fields)
  next
    case (CellClicked k)
    then show ?thesis
      using Pair t
      by (simp add: timer_inv_def case_prod_beta commit_fields handleBlockClick_frame
          split: option.splits)
  next
    case Tick
    then show ?thesis
      using Pair t by (simp add: timer_inv_def commit_fields tick_def timerEffect_def Let_def)
  next
    case Info
    then show ?thesis
      using Pair t by (simp add: timer_inv_def commit_fields showInfo_def timerEffect_def)
  next
    case GridExited
    then show ?thesis using Pair t by (simp add: timer_inv_def gridExited_fields)
  qed
qed

lemma foldl_step_timer_inv: "timer_inv (fst p) \<Longrightarrow> timer_inv (fst (foldl step p es))"
  by (induction es arbitrary: p) (simp_all add: step_timer_inv)

lemma run_timer_inv: "timer_inv (fst (run g es))"
  unfolding run_def by (rule foldl_step_timer_inv) (simp add: timer_inv_def initialSession_def)

text \<open>
  In every session reached while \<open>PLAYING\<close>, the cells on screen carry the handlers of
  the last render: a click there runs \<open>handleBlockClick index (render st) st\<close>.
\<close>

lemma commit_current: "levelData st \<noteq> None \<Longrightarrow> current_inv (commit st)"
  by (simp add: current_inv_def commit_def render_def)

lemma step_current_inv: "current_inv (fst p) \<Longrightarrow> current_inv (fst (step p e))"
proof (cases p)
  case (Pair st g)
  assume "current_inv (fst p)"
  with Pair have c: "gameState st = PLAYING \<longrightarrow> levelData st \<noteq> None \<and> grid st = Some (render st)"
    by (simp add: current_inv_def)
  show ?thesis
  proof (cases e)
    case Start
    have "levelData (fst (startGame st g)) \<noteq> None" by (simp add: startGame_fields)
    then show ?thesis using Pair Start by (simp add: case_prod_beta commit_current)
  next
    case (CellClicked k)
    show ?thesis
    proof (cases "gameState st = PLAYING")
      case True
      with c have l: "levelData st \<noteq> None" and gr: "grid st = Some (render st)" by simp_all
      have "levelData (fst (handleBlockClick k (render st) st g)) \<noteq> None"
        using l by (rule handleBlockClick_levelData)
      then show ?thesis
        using Pair CellClicked gr by (simp add: case_prod_beta commit_current)
    next
      case False
      then show ?thesis
        using Pair CellClicked
        by (simp add: current_inv_def case_prod_beta commit_fields handleBlockClick_frame
            split: option.splits)
    qed
  next
    case Tick
    show ?thesis
    proof (cases "gameState (tick st) = PLAYING")
      case True
      then have "gameState st = PLAYING"
        by (simp add: tick_def timerEffect_def Let_def split: if_splits)
      with c have "levelData st \<noteq> None" by simp
      then have "levelData (tick st) \<noteq> None"
        by (simp add: tick_def timerEffect_def Let_def)
      then show ?thesis using Pair Tick by (simp add: commit_current)
    next
      case False
      then show ?thesis using Pair Tick by (simp add: current_inv_def commit_fields)
    qed
  next
    case Info
    then show ?thesis
      using Pair by (simp add: current_inv_def commit_fields showInfo_def timerEffect_def)
  next
    case GridExited
    then show ?thesis using Pair c by (auto simp add: current_inv_def gridExited_def)
  qed
qed

lemma foldl_step_current_inv:
  "current_inv (fst p) \<Longrightarrow> current_inv (fst (foldl step p es))"
  by (induction es arbitrary: p) (simp_all add: step_current_inv)

lemma run_current_inv: "current_inv (fst (run g es))"
  unfolding run_def
  by (rule foldl_step_current_inv) (simp add: current_inv_def initialSession_def)

lemma click_while_playing:
  assumes "st = fst (run g0 es)" and "gameState st = PLAYING"
  shows "step (st, g) (CellClicked index) =
     (commit (fst (handleBlockClick index (render st) st g)),
      snd (handleBlockClick index (render st) st g))"
proof -
  have "grid st = Some (render st)"
    using run_current_inv [of g0 es] assms by (simp add: current_inv_def)
  then show ?thesis by (simp add: case_prod_beta)
qed

text \<open>
  Claim C4. A click on the cell \<open>diffIndex\<close> of the current round while \<open>PLAYING\<close>
  (the handler is that of the current render) adds 1 to \<open>score\<close>, sets \<open>timeLeft\<close>
  to \<open>min(60, timeLeft + 2)\<close>, stores in \<open>lastDiff\<close> the two CSS strings and the
  distance of the round just solved, replaces the round by one generated at the new
  score, and leaves \<open>gameState\<close> at \<open>PLAYING\<close>.
\<close>

theorem correct_click:
  assumes "gameState st = PLAYING" and "levelData st = Some ld" and "index = diffIndex ld"
  shows "handleBlockClick index (render st) st g =
     (st\<lparr>score := score st + 1,
         lastDiff := Some \<lparr>base = colorToCss (baseColor ld), diff = colorToCss (diffColor ld),
                           delta = toFixed2 (\<bar>hue (baseColor ld) - hue (diffColor ld)\<bar> +
                                             \<bar>sat (baseColor ld) - sat (diffColor ld)\<bar> +
                                             \<bar>light (baseColor ld) - light (diffColor ld)\<bar>)\<rparr>,
         timeLeft := min 60 (timeLeft st + 2),
         levelData := Some (fst (generateColor (of_int (score st + 1)) g))\<rparr>,
      snd (generateColor (of_int (score st + 1)) g)) \<and>
   score (fst (handleBlockClick index (render st) st g)) = score st + 1 \<and>
   timeLeft (fst (handleBlockClick index (render st) st g)) = min 60 (timeLeft st + 2) \<and>
   gameState (fst (handleBlockClick index (render st) st g)) = PLAYING"
  using assms
  by (simp add: handleBlockClick_def render_def colorToCss_def Let_def split: prod.splits)

theorem correct_click_witness:
  "gameState sampleSession = PLAYING \<and> levelData sampleSession = Some sampleRound \<and>
   (12::int) = diffIndex sampleRound \<and>
   score (fst (handleBlockClick 12 (render sampleSession) sampleSession sampleRng)) = 4 \<and>
   timeLeft (fst (handleBlockClick 12 (render sampleSession) sampleSession sampleRng)) = 60 \<and>
   gameState (fst (handleBlockClick 12 (render sampleSession) sampleSession sampleRng)) = PLAYING"
proof -
  have h: "gameState sampleSession = PLAYING" "levelData sampleSession = Some sampleRound"
    "(12::int) = diffIndex sampleRound"
    by (simp_all add: sampleSession_def sampleRound_def)
  have v: "score sampleSession + 1 = 4" "min 60 (timeLeft sampleSession + 2) = 60"
    by (simp_all add: sampleSession_def)
  note c = correct_click [OF h, of sampleRng, THEN conjunct2]
  from h c [THEN conjunct1] c [THEN conjunct2, THEN conjunct1] c [THEN conjunct2, THEN conjunct2]
  show ?thesis unfolding v by blast
qed

text \<open>
  Claim C5. A click on any other cell while \<open>PLAYING\<close> sets \<open>timeLeft\<close> to
  \<open>max(0, timeLeft - 5)\<close> and changes nothing else: the state stays \<open>PLAYING\<close> even
  when \<open>timeLeft\<close> reaches 0, and it is the next tick that moves it to \<open>GAMEOVER\<close>.
\<close>

theorem wrong_click:
  assumes "gameState st = PLAYING" and "levelData st = Some ld" and "index \<noteq> diffIndex ld"
  shows "handleBlockClick index (render st) st g =
     (st\<lparr>timeLeft := max 0 (timeLeft st - 5)\<rparr>, g) \<and>
   gameState (fst (handleBlockClick index (render st) st g)) = PLAYING \<and>
   (timeLeft st \<le> 5 \<longrightarrow> timeLeft (fst (handleBlockClick index (render st) st g)) = 0) \<and>
   (timeLeft st \<le> 5 \<and> timerArmed st \<longrightarrow>
      gameState (tick (fst (handleBlockClick index (render st) st g))) = GAMEOVER)"
  using assms
  by (simp add: handleBlockClick_def render_def tick_def timerEffect_def Let_def)

theorem wrong_click_witness:
  "gameState (sampleSession\<lparr>timeLeft := 4\<rparr>) = PLAYING \<and>
   levelData (sampleSession\<lparr>timeLeft := 4\<rparr>) = Some sampleRound \<and>
   (3::int) \<noteq> diffIndex sampleRound \<and> timerArmed (sampleSession\<lparr>timeLeft := 4\<rparr>) \<and>
   handleBlockClick 3 (render (sampleSession\<lparr>timeLeft := 4\<rparr>))
       (sampleSession\<lparr>timeLeft := 4\<rparr>) sampleRng =
     (sampleSession\<lparr>timeLeft := 0\<rparr>, sampleRng) \<and>
   gameState (tick (fst (handleBlockClick 3 (render (sampleSession\<lparr>timeLeft := 4\<rparr>))
       (sampleSession\<lparr>timeLeft := 4\<rparr>) sampleRng))) = GAMEOVER"
proof -
  have h: "gameState (sampleSession\<lparr>timeLeft := 4\<rparr>) = PLAYING"
    "levelData (sampleSession\<lparr>timeLeft := 4\<rparr>) = Some sampleRound"
    "(3::int) \<noteq> diffIndex sampleRound"
    by (simp_all add: sampleSession_def sampleRound_def)
  have t: "timerArmed (sampleSession\<lparr>timeLeft := 4\<rparr>)"
    "timeLeft (sampleSession\<lparr>timeLeft := 4\<rparr>) = 4"
    by (simp_all add: sampleSession_def)
  have m: "(sampleSession\<lparr>timeLeft := 4\<rparr>)\<lparr>timeLeft := max 0 (4 - 5)\<rparr> =
      sampleSession\<lparr>timeLeft := 0\<rparr>"
    by (simp add: sampleSession_def)
  have l: "timeLeft (sampleSession\<lparr>timeLeft := 4\<rparr>) \<le> 5 \<and>
      timerArmed (sampleSession\<lparr>timeLeft := 4\<rparr>)"
    by (simp add: sampleSession_def)
  note w = wrong_click [OF h, of sampleRng]
  note e = w [THEN conjunct1, unfolded t(2) m]
  note o = w [THEN conjunct2, THEN conjunct2, THEN conjunct2, rule_format, OF l]
  from h t(1) e o show ?thesis by blast
qed

text \<open>
  Claim C6, on the code. A cell can be clicked only where a grid is on screen, and a
  grid is drawn only by a render in \<open>PLAYING\<close>; after the state has left \<open>PLAYING\<close>
  the grid stays on screen while it animates out, and its cells still carry the
  handlers of that render, whose guard reads \<open>PLAYING\<close>. Start the game, let sixty
  ticks pass (the state is \<open>GAMEOVER\<close>, score 0, no time left), then click the odd
  cell of the leaving grid: the click is not ignored. The score becomes 1, the time
  left 2, the feedback is stored and a new round is generated, all in \<open>GAMEOVER\<close>.
  Likewise in \<open>START\<close>: start the game, press the button of the header, then click a
  wrong cell of the leaving grid, and five seconds are taken off the time left.
\<close>

theorem click_after_gameover:
  "gameState (fst (run sampleRng (Start # replicate 60 Tick))) = GAMEOVER \<and>
   score (fst (run sampleRng (Start # replicate 60 Tick))) = 0 \<and>
   timeLeft (fst (run sampleRng (Start # replicate 60 Tick))) = 0 \<and>
   lastDiff (fst (run sampleRng (Start # replicate 60 Tick))) = None \<and>
   gameState (fst (run sampleRng (Start # replicate 60 Tick @ [CellClicked 12]))) = GAMEOVER \<and>
   score (fst (run sampleRng (Start # replicate 60 Tick @ [CellClicked 12]))) = 1 \<and>
   timeLeft (fst (run sampleRng (Start # replicate 60 Tick @ [CellClicked 12]))) = 2 \<and>
   lastDiff (fst (run sampleRng (Start # replicate 60 Tick @ [CellClicked 12]))) =
     Some \<lparr>base = ''hsl(180, 60%, 50%)'', diff = ''hsl(180, 45%, 50%)'', delta = 15\<rparr> \<and>
   levelData (fst (run sampleRng (Start # replicate 60 Tick @ [CellClicked 12]))) \<noteq>
     levelData (fst (run sampleRng (Start # replicate 60 Tick))) \<and>
   gameState (fst (run sampleRng [Start, Info])) = START \<and>
   timeLeft (fst (run sampleRng [Start, Info])) = 60 \<and>
   gameState (fst (run sampleRng [Start, Info, CellClicked 3])) = START \<and>
   timeLeft (fst (run sampleRng [Start, Info, CellClicked 3])) = 55"
  by code_simp

text \<open>
  What the guard does achieve: a handler made by a render outside \<open>PLAYING\<close>, or
  without a round, changes nothing; and with no grid on screen a click changes
  nothing. No such handler is ever attached to a cell.
\<close>

lemma handler_outside_playing:
  "r_gameState rd \<noteq> PLAYING \<or> r_levelData rd = None \<Longrightarrow> handleBlockClick index rd st g = (st, g)"
  by (auto simp add: handleBlockClick_def)

lemma click_without_grid: "grid st = None \<Longrightarrow> step (st, g) (CellClicked index) = (st, g)"
  by simp

lemma grid_seen_playing:
  "grid (fst (run g es)) = Some rd \<Longrightarrow> r_gameState rd = PLAYING \<and> r_levelData rd \<noteq> None"
  using run_inv [of g es] by (simp add: grid_inv_def)

text \<open>
  Claim C7. In every session reached from the initial one whose state is \<open>PLAYING\<close>
  the interval is running, and a tick takes 1 from \<open>timeLeft\<close> when \<open>timeLeft > 1\<close>;
  when \<open>timeLeft \<le> 1\<close> it sets \<open>timeLeft\<close> to 0 and the state to \<open>GAMEOVER\<close>,
  calls \<open>confetti\<close> once and stops the interval, so that a further tick changes
  nothing.
\<close>

theorem tick_playing:
  assumes "st = fst (run g es)" and "gameState st = PLAYING"
  shows "timerArmed st \<and>
   (1 < timeLeft st \<longrightarrow> tick st = st\<lparr>timeLeft := timeLeft st - 1\<rparr>) \<and>
   (timeLeft st \<le> 1 \<longrightarrow>
      tick st = st\<lparr>gameState := GAMEOVER, confettiCount := confettiCount st + 1,
                   timeLeft := 0, timerArmed := False\<rparr> \<and>
      tick (tick st) = tick st)"
proof -
  have a: "timerArmed st" using run_timer_inv [of g es] assms by (simp add: timer_inv_def)
  then show ?thesis using assms(2)
    by (simp add: tick_def timerEffect_def Let_def)
qed

theorem tick_playing_witness:
  "gameState (fst (run sampleRng [Start])) = PLAYING \<and>
   1 < timeLeft (fst (run sampleRng [Start])) \<and>
   tick (fst (run sampleRng [Start])) = (fst (run sampleRng [Start]))\<lparr>timeLeft := 59\<rparr> \<and>
   gameState (fst (run sampleRng (Start # replicate 12 (CellClicked 3)))) = PLAYING \<and>
   timeLeft (fst (run sampleRng (Start # replicate 12 (CellClicked 3)))) \<le> 1 \<and>
   gameState (tick (fst (run sampleRng (Start # replicate 12 (CellClicked 3))))) = GAMEOVER \<and>
   timeLeft (tick (fst (run sampleRng (Start # replicate 12 (CellClicked 3))))) = 0 \<and>
   confettiCount (tick (fst (run sampleRng (Start # replicate 12 (CellClicked 3))))) = 1 \<and>
   tick (tick (fst (run sampleRng (Start # replicate 12 (CellClicked 3))))) =
     tick (fst (run sampleRng (Start # replicate 12 (CellClicked 3))))"
proof -
  let ?a = "fst (run sampleRng [Start])"
  let ?b = "fst (run sampleRng (Start # replicate 12 (CellClicked 3)))"
  have a: "gameState ?a = PLAYING" "timeLeft ?a = 60"
    by (simp_all add: run_start)
  have b: "gameState ?b = PLAYING" "timeLeft ?b = 0" "confettiCount ?b = 0"
    by code_simp+
  note ta = tick_playing [OF refl a(1)]
  note tb = tick_playing [OF refl b(1)]
  have a': "tick ?a = ?a\<lparr>timeLeft := 59\<rparr>"
    using ta [THEN conjunct2, THEN conjunct1] a(2) by simp
  have d: "1 < timeLeft ?a" "timeLeft ?b \<le> 1" by (simp_all add: a(2) b(2))
  note b' = tb [THEN conjunct2, THEN conjunct2, rule_format, OF d(2)]
  have c: "gameState (tick ?b) = GAMEOVER" "timeLeft (tick ?b) = 0" "confettiCount (tick ?b) = 1"
    unfolding b' [THEN conjunct1] by (simp_all add: b(3))
  from a(1) d(1) a' b(1) d(2) c b' [THEN conjunct2] show ?thesis by blast
qed

text \<open>
  Claim C8. The invariant \<open>0 \<le> score\<close>, \<open>0 \<le> timeLeft \<le> 60\<close> holds in the initial
  session, is established by \<open>startGame\<close> (with \<open>score = 0\<close> and \<open>timeLeft = 60\<close>), is
  preserved by every click, be it through the handler of the current render or
  through one of an earlier render that saw a score \<open>\<ge> 0\<close>, and by every tick, and
  so holds after every run of events.
\<close>

theorem session_invariant:
  "session_inv initialSession \<and>
   session_inv (fst (startGame st g)) \<and>
   score (fst (startGame st g)) = 0 \<and> timeLeft (fst (startGame st g)) = 60 \<and>
   (session_inv st \<longrightarrow> session_inv (fst (handleBlockClick i (render st) st g))) \<and>
   (session_inv st \<and> 0 \<le> r_score rd \<longrightarrow> session_inv (fst (handleBlockClick i rd st g))) \<and>
   (session_inv st \<longrightarrow> session_inv (tick st)) \<and>
   session_inv (fst (run g es))"
proof -
  have i: "session_inv initialSession" by (simp add: session_inv_def initialSession_def)
  have c: "session_inv st \<longrightarrow> session_inv (fst (handleBlockClick i (render st) st g))"
  proof (rule impI)
    assume s: "session_inv st"
    then have "0 \<le> r_score (render st)" by (simp add: session_inv_def render_def)
    with s show "session_inv (fst (handleBlockClick i (render st) st g))"
      by (rule handleBlockClick_inv)
  qed
  from i c run_inv [of g es] show ?thesis
    by (simp add: startGame_inv startGame_fields handleBlockClick_inv tick_inv)
qed

theorem session_invariant_witness:
  "session_inv sampleSession \<and> 0 \<le> r_score (render sampleSession) \<and>
   session_inv (fst (handleBlockClick 12 (render sampleSession) sampleSession sampleRng)) \<and>
   session_inv (tick sampleSession) \<and>
   session_inv (fst (run sampleRng [Start, CellClicked 12, CellClicked 3, Tick]))"
proof -
  have h: "session_inv sampleSession" "0 \<le> r_score (render sampleSession)"
    by (simp_all add: session_inv_def sampleSession_def render_def)
  from session_invariant [of sampleSession sampleRng 12 "render sampleSession"
      "[Start, CellClicked 12, CellClicked 3, Tick]"] h
  show ?thesis by simp
qed

section \<open>The match feedback\<close>

lemma quarter_of_int: "quarter (of_int n)"
  unfolding quarter_def by (rule exI [of _ "4 * n"]) simp

lemma quarter_numeral: "quarter (numeral n)"
  using quarter_of_int [of "numeral n"] by simp

lemma quarter_add: "quarter x \<Longrightarrow> quarter y \<Longrightarrow> quarter (x + y)"
  unfolding quarter_def
proof (elim exE)
  fix k l :: int
  assume "x = of_int k / 4" "y = of_int l / 4"
  then have "x + y = of_int (k + l) / 4" by (simp add: add_divide_distrib)
  then show "\<exists>m::int. x + y = of_int m / 4" by blast
qed

lemma quarter_minus: "quarter x \<Longrightarrow> quarter (- x)"
  unfolding quarter_def
proof (elim exE)
  fix k :: int
  assume "x = of_int k / 4"
  then have "- x = of_int (- k) / 4" by simp
  then show "\<exists>m::int. - x = of_int m / 4" by blast
qed

lemma quarter_diff: "quarter x \<Longrightarrow> quarter y \<Longrightarrow> quarter (x - y)"
  using quarter_add [of x "- y"] quarter_minus [of y] by simp

lemma quarter_abs: "quarter x \<Longrightarrow> quarter \<bar>x\<bar>"
  by (simp add: abs_if quarter_minus)

lemma quarter_min: "quarter x \<Longrightarrow> quarter y \<Longrightarrow> quarter (min x y)"
  by (simp add: min_def)

lemma quarter_max: "quarter x \<Longrightarrow> quarter y \<Longrightarrow> quarter (max x y)"
  by (simp add: max_def)

lemma quarter_colorDelta: "quarter (colorDelta (of_int d))"
proof -
  have a: "quarter (3 / 2)" unfolding quarter_def by (rule exI [of _ 6]) simp
  have "of_int d * (1 / 4) = (of_int d / 4 :: rat)" by simp
  then have b: "quarter (of_int d * (1 / 4))" unfolding quarter_def by blast
  show ?thesis unfolding colorDelta_def
    by (intro quarter_max quarter_diff a b quarter_numeral)
qed

lemma quarter_js_rem: "quarter a \<Longrightarrow> quarter (js_rem a 360)"
proof -
  assume a: "quarter a"
  have "quarter (360 * of_int n)" for n :: int
    using quarter_of_int [of "360 * n"] by simp
  then show ?thesis unfolding js_rem_def by (intro quarter_diff a)
qed

lemma quarter_clamp: "quarter x \<Longrightarrow> quarter (min 100 (max 0 x))"
proof -
  assume "quarter x"
  moreover have "quarter 0" using quarter_of_int [of 0] by simp
  ultimately show ?thesis by (intro quarter_min quarter_max quarter_numeral)
qed

lemma generated_quarter:
  fixes d :: int and g :: rng
  defines "ld \<equiv> fst (generateColor (of_int d) g)"
  shows "quarter (hue (baseColor ld))" "quarter (sat (baseColor ld))"
    "quarter (light (baseColor ld))" "quarter (hue (diffColor ld))"
    "quarter (sat (diffColor ld))" "quarter (light (diffColor ld))"
proof -
  let ?L = "fst (generateColor (of_int d) g)"
  have i40: "quarter (of_int n + 40)" and i30: "quarter (of_int n + 30)" for n :: int
    by (intro quarter_add quarter_of_int quarter_numeral)+
  have sg: "quarter (if b then colorDelta (of_int d) else - colorDelta (of_int d))" for b
    by (simp add: quarter_colorDelta quarter_minus)
  show "quarter (hue (baseColor ld))" "quarter (sat (baseColor ld))"
    "quarter (light (baseColor ld))"
    unfolding ld_def by (simp_all add: generateColor_base quarter_of_int i40 i30)
  consider (hue) "g 3 < 33 / 100"
    | (sat) "\<not> g 3 < 33 / 100" "g 3 < 66 / 100"
    | (light) "\<not> g 3 < 33 / 100" "\<not> g 3 < 66 / 100"
    by blast
  then have "quarter (hue (diffColor ?L)) \<and> quarter (sat (diffColor ?L)) \<and>
    quarter (light (diffColor ?L))"
  proof cases
    case hue
    have "quarter (js_rem (of_int \<lfloor>g 0 * 360\<rfloor> + colorDelta (of_int d)) 360)"
      by (intro quarter_js_rem quarter_add quarter_of_int quarter_colorDelta)
    with hue show ?thesis by (simp add: generateColor_hue_branch quarter_of_int i40 i30)
  next
    case sat
    have "quarter (min 100 (max 0 (of_int \<lfloor>g 1 * 40\<rfloor> + 40 +
             (if g 4 > 1 / 2 then colorDelta (of_int d) else - colorDelta (of_int d)))))"
      by (intro quarter_clamp quarter_add i40 sg)
    with sat show ?thesis by (simp add: generateColor_sat_branch quarter_of_int i40 i30)
  next
    case light
    have "quarter (min 100 (max 0 (of_int \<lfloor>g 2 * 40\<rfloor> + 30 +
             (if g 4 > 1 / 2 then colorDelta (of_int d) else - colorDelta (of_int d)))))"
      by (intro quarter_clamp quarter_add i30 sg)
    with light show ?thesis by (simp add: generateColor_light_branch quarter_of_int i40 i30)
  qed
  then show "quarter (hue (diffColor ld))"
    "quarter (sat (diffColor ld))" "quarter (light (diffColor ld))"
    unfolding ld_def by simp_all
qed

lemma toFixed2_quarter:
  assumes "quarter x" "0 \<le> x"
  shows "toFixed2 x = x"
proof -
  from assms(1) obtain k :: int where k: "x = of_int k / 4" unfolding quarter_def by blast
  have "\<lfloor>x * 100 + 1 / 2\<rfloor> = 25 * k" by (rule floor_unique) (simp_all add: k)
  then show ?thesis using assms(2) by (simp add: toFixed2_def k)
qed

text \<open>
  Claim C9. For every round the generator makes from an integer difficulty, the
  feedback stored on a correct click has \<open>delta\<close> equal to the plain sum
  \<open>|baseHue - diffHue| + |baseSat - diffSat| + |baseLight - diffLight|\<close> of the raw
  channel values (rounding to two decimals changes nothing, and no shorter way round
  the hue circle is taken), and \<open>base\<close> and \<open>diff\<close> are the \<open>hsl(...)\<close> strings of the
  two colours, as \<open>colorToCss\<close> writes them.
\<close>

theorem feedback_l1:
  assumes "ld = fst (generateColor (of_int d) g0)"
    and "gameState st = PLAYING" and "levelData st = Some ld"
  shows "lastDiff (fst (handleBlockClick (diffIndex ld) (render st) st g)) =
     Some \<lparr>base = colorToCss (baseColor ld), diff = colorToCss (diffColor ld),
           delta = \<bar>hue (baseColor ld) - hue (diffColor ld)\<bar> +
                   \<bar>sat (baseColor ld) - sat (diffColor ld)\<bar> +
                   \<bar>light (baseColor ld) - light (diffColor ld)\<bar>\<rparr>"
proof -
  let ?l1 = "\<bar>hue (baseColor ld) - hue (diffColor ld)\<bar> +
             \<bar>sat (baseColor ld) - sat (diffColor ld)\<bar> +
             \<bar>light (baseColor ld) - light (diffColor ld)\<bar>"
  have "quarter ?l1"
    unfolding assms(1)
    by (intro quarter_add quarter_abs quarter_diff generated_quarter)
  moreover have "0 \<le> ?l1" by simp
  ultimately have "toFixed2 ?l1 = ?l1" by (rule toFixed2_quarter)
  then show ?thesis using assms(2,3)
    by (simp add: handleBlockClick_def render_def colorToCss_def Let_def split: prod.splits)
qed

theorem feedback_l1_witness:
  "gameState (sampleSession\<lparr>levelData := Some (fst (generateColor (of_int 0) wrapRng))\<rparr>) =
     PLAYING \<and>
   lastDiff (fst (handleBlockClick 24
      (render (sampleSession\<lparr>levelData := Some (fst (generateColor (of_int 0) wrapRng))\<rparr>))
      (sampleSession\<lparr>levelData := Some (fst (generateColor (of_int 0) wrapRng))\<rparr>) sampleRng)) =
     Some \<lparr>base = ''hsl(359, 79%, 69%)'', diff = ''hsl(14, 79%, 69%)'', delta = 345\<rparr>"
proof -
  let ?st = "sampleSession\<lparr>levelData := Some (fst (generateColor (of_int 0) wrapRng))\<rparr>"
  have h: "gameState ?st = PLAYING"
    "levelData ?st = Some (fst (generateColor (of_int 0) wrapRng))"
    by (simp_all add: sampleSession_def)
  from feedback_l1 [OF refl h, of sampleRng] h(1) show ?thesis
    by (simp add: generate_wrap css_wrap)
qed

end
